theory Spec2Isabelle
  imports Main "HOL-Library.Word"
begin

unbundle bit_operations_syntax

section \<open>128-bit integers from decimal strings (mongo/platform/int128.h)\<close>

text \<open>
  \<^verbatim>\<open>uint128_t\<close> and \<^verbatim>\<open>int128_t\<close> are the 128-bit integers of abseil. Both are
  modelled as 128-bit words: arithmetic wraps modulo \<open>2 ^ 128\<close>, \<open>unat\<close> reads the
  unsigned value and \<open>sint\<close> the two's complement value.
\<close>

type_synonym uint128_t = "128 word"
type_synonym int128_t = "128 word"

text \<open>\<^verbatim>\<open>std::isdigit\<close> in the C locale: the ten characters \<^verbatim>\<open>'0'\<close> to \<^verbatim>\<open>'9'\<close>.\<close>

definition isdigit :: "char \<Rightarrow> bool" where
  "isdigit c \<longleftrightarrow> 48 \<le> (of_char c :: nat) \<and> (of_char c :: nat) \<le> 57"

text \<open>
  The body of the \<^verbatim>\<open>for\<close> loop of \<^verbatim>\<open>UInt128::MakeUint128FromString\<close>, over the
  characters still to be read, with the two locals \<^verbatim>\<open>startingVal\<close> and \<^verbatim>\<open>prevVal\<close>.
  \<^verbatim>\<open>cur - '0'\<close> is an \<^verbatim>\<open>int\<close> that is converted to \<^verbatim>\<open>uint128_t\<close> by the addition.
\<close>

fun MakeUint128_loop :: "string \<Rightarrow> uint128_t \<Rightarrow> uint128_t \<Rightarrow> uint128_t option" where
  "MakeUint128_loop [] startingVal prevVal = Some startingVal"
| "MakeUint128_loop (cur # rest) startingVal prevVal =
     (if \<not> isdigit cur then None
      else let startingVal' = startingVal * 10 + word_of_int (int (of_char cur) - 48)
           in if prevVal > startingVal' then None
              else MakeUint128_loop rest startingVal' startingVal')"

definition MakeUint128FromString :: "string \<Rightarrow> uint128_t option" where
  "MakeUint128FromString s = (if s = [] then None else MakeUint128_loop s 0 0)"

text \<open>\<^verbatim>\<open>absl::Int128Max()\<close>, converted to \<^verbatim>\<open>uint128_t\<close> for the comparison.\<close>

definition Int128Max :: uint128_t where
  "Int128Max = 2 ^ 127 - 1"

text \<open>
  \<^verbatim>\<open>Int128::MakeInt128FromString\<close>. \<^verbatim>\<open>s.substr(1, s.length() - 1)\<close> is the string
  without its first character; the cast to \<^verbatim>\<open>int128_t\<close> keeps the bits, and the
  multiplication by \<open>-1\<close> is the two's complement negation.
\<close>

definition MakeInt128FromString :: "string \<Rightarrow> int128_t option" where
  "MakeInt128FromString s =
     (if s = [] then None
      else let sign = (hd s = CHR ''-'');
               val = (if sign then MakeUint128FromString (tl s) else MakeUint128FromString s)
           in case val of
                None \<Rightarrow> None
              | Some v \<Rightarrow> if v > Int128Max then None
                          else Some (if sign then v * (- 1) else v))"

text \<open>
  The number a string of decimal digits denotes, least significant digit last
  (the reference the parser is compared with).
\<close>

definition digit_value :: "char \<Rightarrow> nat" where
  "digit_value c = of_char c - 48"

definition decimal_value :: "string \<Rightarrow> nat" where
  "decimal_value s = horner_sum digit_value 10 (rev s)"

section \<open>The Simple-8b builder and iterator state (mongo/bson/util/simple8b.h)\<close>

text \<open>
  The header declares the builder \<^verbatim>\<open>Simple8bBuilder<T>\<close>, its nested
  \<^verbatim>\<open>PendingValue\<close> and the iterator \<^verbatim>\<open>Simple8b<T>::Iterator\<close>, with the default
  member initialisers of the builder. The element type \<^verbatim>\<open>T\<close> is the type
  parameter \<open>'a\<close>; a \<^verbatim>\<open>std::array<uint8_t, 4>\<close> is a list of four bytes, the
  \<^verbatim>\<open>std::deque\<close> of pending values is a list with its front at the head.
\<close>

definition kNumOfSelectorTypes :: nat where
  "kNumOfSelectorTypes = 4"

definition kMinDataBits :: "8 word list" where
  "kMinDataBits = [1, 2, 4, 4]"

record 'a PendingValue =
  val :: 'a
  bitCount :: "8 word list"
  trailingZerosCount :: "8 word list"
  skip :: bool

text \<open>
  The data members of the builder. The callback \<^verbatim>\<open>_writeFn\<close> is modelled by the
  sequence of words it has been called with, oldest first.
\<close>

record 'a Simple8bBuilder =
  rleCount :: "32 word"
  lastValueInPrevWord :: "'a PendingValue"
  currMaxBitLen :: "8 word list"
  currTrailingZerosCount :: "8 word list"
  lastValidExtensionType :: "8 word"
  isSelectorPossible :: "bool list"
  pendingValues :: "'a PendingValue list"
  writeFn_calls :: "64 word list"

text \<open>
  A freshly constructed builder: every member has its default member initialiser
  (lines 173 to 195 of the header) and nothing has been written.
\<close>

definition Simple8bBuilder_new :: "('a::zero) Simple8bBuilder" where
  "Simple8bBuilder_new =
     \<lparr> rleCount = 0,
       lastValueInPrevWord =
         \<lparr> val = 0, bitCount = [0, 0, 0, 0], trailingZerosCount = [0, 0, 0, 0],
           skip = False \<rparr>,
       currMaxBitLen = kMinDataBits,
       currTrailingZerosCount = [0, 0, 0, 0],
       lastValidExtensionType = 0,
       isSelectorPossible = [True, True, True, True],
       pendingValues = [],
       writeFn_calls = [] \<rparr>"

text \<open>
  The data members of the iterator. The two pointers \<^verbatim>\<open>_pos\<close> and \<^verbatim>\<open>_end\<close> are
  word offsets into the packed buffer.
\<close>

record 'a Iterator =
  pos :: nat
  end_it :: nat
  current :: "64 word"
  value_it :: "'a option"
  mask_it :: "64 word"
  rleRemaining :: "16 word"
  shift :: "8 word"
  bitsPerValue :: "8 word"
  countMask :: "8 word"
  countBits :: "8 word"
  countMultiplier :: "8 word"
  selector :: "8 word"
  extensionType :: "8 word"

section \<open>The iterator's comparison operators\<close>

text \<open>
  Modelled from the spec: \<^verbatim>\<open>Simple8b<T>::Iterator::operator==\<close> and
  \<^verbatim>\<open>operator!=\<close> are declared in the header and defined in simple8b.cpp, which is
  not among the sources. Section 4.8 of the specification: two iterators are equal
  iff their \<^verbatim>\<open>pos\<close> and \<^verbatim>\<open>shift\<close> agree.
\<close>

definition operator_eq :: "'a Iterator \<Rightarrow> 'a Iterator \<Rightarrow> bool" where
  "operator_eq lhs rhs \<longleftrightarrow> pos lhs = pos rhs \<and> shift lhs = shift rhs"

definition operator_neq :: "'a Iterator \<Rightarrow> 'a Iterator \<Rightarrow> bool" where
  "operator_neq lhs rhs \<longleftrightarrow> \<not> operator_eq lhs rhs"

section \<open>The builder's operations\<close>

text \<open>
  The member functions of the builder are declared in the header and defined in
  simple8b.cpp, which is not among the sources. They are modelled from sections
  3.4 and 4.2 to 4.7 of the specification, under the names and signatures the
  header declares. What the specification leaves to the fixed wire-format table
  is a parameter of the model.
\<close>

text \<open>
  Modelled from the spec: the selector table of section 4.1 and what sections 3.3,
  4.4, 4.5 and 4.6 read from it, none of which the header or the specification
  spells out.
  \<^item> \<open>costOf v\<close>: the per-family bit counts and stored trailing-zero counts of a
    value (section 3.3, step 2 of section 4.2);
  \<^item> \<open>fitsFamily f n b z z'\<close>: the fit test of section 4.4 for family \<open>f\<close> with
    \<open>n\<close> slots after the insertion, prospective maximal bit count \<open>b\<close>, the
    queue's trailing-zero envelope \<open>z\<close> and the new value's trailing-zero count
    \<open>z'\<close>;
  \<^item> \<open>slotCountFor f b z n\<close>: the largest slot count of family \<open>f\<close> that is at
    most \<open>n\<close> and still packs into one word (step 1 of section 4.6);
  \<^item> \<open>encodeWord f ps\<close>: the packed word for the values \<open>ps\<close> under family \<open>f\<close>
    (steps 2 to 4 of section 4.6);
  \<^item> \<open>rleWords n\<close>: the run-length words that cover the multiples of 120 in a run
    of length \<open>n\<close> (section 4.5).
\<close>

record 'a SelectorTables =
  costOf :: "'a \<Rightarrow> 8 word list \<times> 8 word list"
  fitsFamily :: "nat \<Rightarrow> nat \<Rightarrow> 8 word \<Rightarrow> 8 word \<Rightarrow> 8 word \<Rightarrow> bool"
  slotCountFor :: "nat \<Rightarrow> 8 word \<Rightarrow> 8 word \<Rightarrow> nat \<Rightarrow> nat"
  encodeWord :: "nat \<Rightarrow> 'a PendingValue list \<Rightarrow> 64 word"
  rleWords :: "nat \<Rightarrow> 64 word list"

text \<open>
  Modelled from the spec: the minimum storable run length of section 4.5, a
  constant of simple8b.cpp.
\<close>

definition kRleMinLength :: nat where
  "kRleMinLength = 120"

text \<open>
  Modelled from the spec: the cost computation in \<^verbatim>\<open>_appendValue\<close> (step 2 of
  section 4.2): the pending value of \<open>v\<close> with its per-family costs.
\<close>

definition makePendingValue :: "'a SelectorTables \<Rightarrow> 'a \<Rightarrow> 'a PendingValue" where
  "makePendingValue T v =
     \<lparr> val = v, bitCount = fst (costOf T v), trailingZerosCount = snd (costOf T v),
       skip = False \<rparr>"

text \<open>
  Modelled from the spec: the pending value that \<^verbatim>\<open>_appendSkip\<close> queues (section
  4.3): the skip flag set, no meaningful bits and no trailing zeros.
\<close>

definition skipPendingValue :: "('a::zero) PendingValue" where
  "skipPendingValue =
     \<lparr> val = 0, bitCount = [0, 0, 0, 0], trailingZerosCount = [0, 0, 0, 0],
       skip = True \<rparr>"

text \<open>
  Modelled from the spec: \<^verbatim>\<open>_updateSimple8bCurrentState\<close> (the envelopes of
  section 3.4), whose body is in simple8b.cpp. The header's comment on the
  function says that the maximum is always taken between the current state and
  the new value; the model follows the header for both envelopes, where section
  3.4 calls the trailing-zero envelope a minimum.
\<close>

definition updateSimple8bCurrentState ::
  "'a PendingValue \<Rightarrow> 'a Simple8bBuilder \<Rightarrow> 'a Simple8bBuilder" where
  "updateSimple8bCurrentState pv s =
     s\<lparr> currMaxBitLen := map2 max (currMaxBitLen s) (bitCount pv),
        currTrailingZerosCount :=
          map2 max (currTrailingZerosCount s) (trailingZerosCount pv) \<rparr>"

text \<open>
  Modelled from the spec: queueing a value that fits (the end of step 3 of section
  4.2): it goes to the back of \<^verbatim>\<open>_pendingValues\<close> and the envelopes are updated.
\<close>

definition pushPendingValue ::
  "'a PendingValue \<Rightarrow> 'a Simple8bBuilder \<Rightarrow> 'a Simple8bBuilder" where
  "pushPendingValue pv s =
     updateSimple8bCurrentState pv (s\<lparr> pendingValues := pendingValues s @ [pv] \<rparr>)"

text \<open>
  Modelled from the spec: \<^verbatim>\<open>_doesIntegerFitInCurrentWordWithGivenSelectorType\<close>
  (section 4.4, and the header's comment): the fit test of one family on the queue
  plus the new value. A family that admits becomes \<^verbatim>\<open>_lastValidExtensionType\<close>; a
  family that fails is marked impossible.
\<close>

definition doesIntegerFitInCurrentWordWithGivenSelectorType ::
  "'a SelectorTables \<Rightarrow> 'a PendingValue \<Rightarrow> nat \<Rightarrow> 'a Simple8bBuilder
     \<Rightarrow> bool \<times> 'a Simple8bBuilder" where
  "doesIntegerFitInCurrentWordWithGivenSelectorType T pv f s =
     (if fitsFamily T f (length (pendingValues s) + 1)
           (max (currMaxBitLen s ! f) (bitCount pv ! f))
           (currTrailingZerosCount s ! f) (trailingZerosCount pv ! f)
      then (True, s\<lparr> lastValidExtensionType := of_nat f \<rparr>)
      else (False, s\<lparr> isSelectorPossible := (isSelectorPossible s)[f := False] \<rparr>))"

text \<open>
  Modelled from the spec: the loop of \<^verbatim>\<open>_doesIntegerFitInCurrentWord\<close> over the
  families, lowest index first (step 3 of section 4.2, tie-breaking of section
  4.4): only families still possible are tested, and the first that admits wins.
\<close>

fun fitInFamilies ::
  "'a SelectorTables \<Rightarrow> 'a PendingValue \<Rightarrow> nat list \<Rightarrow> 'a Simple8bBuilder
     \<Rightarrow> bool \<times> 'a Simple8bBuilder" where
  "fitInFamilies T pv [] s = (False, s)"
| "fitInFamilies T pv (f # fs) s =
     (if isSelectorPossible s ! f
      then (case doesIntegerFitInCurrentWordWithGivenSelectorType T pv f s of
              (True, s') \<Rightarrow> (True, s')
            | (False, s') \<Rightarrow> fitInFamilies T pv fs s')
      else fitInFamilies T pv fs s)"

text \<open>Modelled from the spec: \<^verbatim>\<open>_doesIntegerFitInCurrentWord\<close> (step 3 of section 4.2).\<close>

definition doesIntegerFitInCurrentWord ::
  "'a SelectorTables \<Rightarrow> 'a PendingValue \<Rightarrow> 'a Simple8bBuilder
     \<Rightarrow> bool \<times> 'a Simple8bBuilder" where
  "doesIntegerFitInCurrentWord T pv s = fitInFamilies T pv [0..<kNumOfSelectorTypes] s"

text \<open>
  Modelled from the spec: one step of the re-scan of the carry-over tail (step 5 of
  section 4.6): the value is tested against the restarted bookkeeping and queued.
\<close>

definition rescanPendingValue ::
  "'a SelectorTables \<Rightarrow> 'a Simple8bBuilder \<Rightarrow> 'a PendingValue \<Rightarrow> 'a Simple8bBuilder" where
  "rescanPendingValue T s pv =
     pushPendingValue pv (snd (doesIntegerFitInCurrentWord T pv s))"

text \<open>
  Modelled from the spec: \<^verbatim>\<open>_encodeLargestPossibleWord\<close> (section 4.6). The table
  gives the slot count, which is at least one and at most the length of the queue;
  that prefix of the queue is packed and written, its last value becomes
  \<^verbatim>\<open>_lastValueInPrevWord\<close> (section 3.4), and the bookkeeping is restarted by
  re-scanning the rest. With nothing pending no word is written and only the
  bookkeeping is restarted.
\<close>

definition encodeLargestPossibleWord ::
  "'a SelectorTables \<Rightarrow> nat \<Rightarrow> 'a Simple8bBuilder \<Rightarrow> 'a Simple8bBuilder" where
  "encodeLargestPossibleWord T f s =
     (if pendingValues s = []
      then s\<lparr> currMaxBitLen := kMinDataBits,
              currTrailingZerosCount := [0, 0, 0, 0],
              isSelectorPossible := [True, True, True, True] \<rparr>
      else let pend = pendingValues s;
               n = max 1 (min (slotCountFor T f (currMaxBitLen s ! f)
                                 (currTrailingZerosCount s ! f) (length pend))
                              (length pend));
               s1 = s\<lparr> lastValueInPrevWord := last (take n pend),
                       currMaxBitLen := kMinDataBits,
                       currTrailingZerosCount := [0, 0, 0, 0],
                       isSelectorPossible := [True, True, True, True],
                       pendingValues := [],
                       writeFn_calls := writeFn_calls s @ [encodeWord T f (take n pend)] \<rparr>
           in foldl (rescanPendingValue T) s1 (drop n pend))"

text \<open>
  Modelled from the spec: steps 3 and 4 of section 4.2, shared by \<^verbatim>\<open>_appendValue\<close>
  and \<^verbatim>\<open>_appendSkip\<close>. If no family admits the value, the largest prefix is
  written under the last valid family and the test is retried once. The result
  says whether the value was queued and whether a word was written.
\<close>

definition appendPending ::
  "'a SelectorTables \<Rightarrow> 'a PendingValue \<Rightarrow> 'a Simple8bBuilder
     \<Rightarrow> bool \<times> bool \<times> 'a Simple8bBuilder" where
  "appendPending T pv s =
     (case doesIntegerFitInCurrentWord T pv s of
        (True, s1) \<Rightarrow> (True, False, pushPendingValue pv s1)
      | (False, s1) \<Rightarrow>
          (let s2 = encodeLargestPossibleWord T (unat (lastValidExtensionType s1)) s1
           in case doesIntegerFitInCurrentWord T pv s2 of
                (True, s3) \<Rightarrow> (True, pendingValues s1 \<noteq> [], pushPendingValue pv s3)
              | (False, s3) \<Rightarrow> (False, pendingValues s1 \<noteq> [], s3)))"

text \<open>
  Modelled from the spec: the condition of the try-RLE bootstrap (step 5 of section
  4.2): the queue holds at least 120 copies of one value and no skip.
\<close>

definition rleBootstrapPossible :: "'a PendingValue list \<Rightarrow> bool" where
  "rleBootstrapPossible pend \<longleftrightarrow>
     kRleMinLength \<le> length pend
     \<and> list_all (\<lambda>p. \<not> skip p \<and> val p = val (hd pend)) pend"

text \<open>
  Modelled from the spec: \<^verbatim>\<open>_appendValue(value, tryRle)\<close> (steps 2 to 5 of section
  4.2). It fails when the value is not admitted even after the flush of step 4.
  Step 5 is taken as written: it asks for at least 120 queued copies right after
  a word was written. The runs that begin where nothing is pending, the one at
  the start of a stream among them, are counted by \<^verbatim>\<open>append\<close> itself.
\<close>

definition appendValue ::
  "'a SelectorTables \<Rightarrow> 'a \<Rightarrow> bool \<Rightarrow> 'a Simple8bBuilder \<Rightarrow> bool \<times> 'a Simple8bBuilder" where
  "appendValue T v tryRle s =
     (case appendPending T (makePendingValue T v) s of
        (False, emitted, s1) \<Rightarrow> (False, s1)
      | (True, emitted, s1) \<Rightarrow>
          if tryRle \<and> emitted \<and> rleBootstrapPossible (pendingValues s1)
          then (True, s1\<lparr> rleCount := of_nat kRleMinLength,
                           lastValueInPrevWord := hd (pendingValues s1),
                           pendingValues := [] \<rparr>)
          else (True, s1))"

text \<open>Modelled from the spec: \<^verbatim>\<open>_appendSkip\<close> (section 4.3).\<close>

definition appendSkip ::
  "'a SelectorTables \<Rightarrow> ('a::zero) Simple8bBuilder \<Rightarrow> 'a Simple8bBuilder" where
  "appendSkip T s = snd (snd (appendPending T skipPendingValue s))"

text \<open>
  Modelled from the spec: \<^verbatim>\<open>_appendRleEncoding\<close> (first item of section 4.5, and
  the header's comment): a run of at least 120 is written as run-length words and
  less than 120 of it remain; a shorter run is left alone.
\<close>

definition appendRleEncoding ::
  "'a SelectorTables \<Rightarrow> 'a Simple8bBuilder \<Rightarrow> 'a Simple8bBuilder" where
  "appendRleEncoding T s =
     (if kRleMinLength \<le> unat (rleCount s)
      then s\<lparr> rleCount := of_nat (unat (rleCount s) mod kRleMinLength),
              writeFn_calls := writeFn_calls s @ rleWords T (unat (rleCount s)) \<rparr>
      else s)"

text \<open>
  Modelled from the spec: the second item of section 4.5: the residual run becomes
  that many pending values of the prior value.
\<close>

primrec appendResidual ::
  "'a SelectorTables \<Rightarrow> nat \<Rightarrow> 'a PendingValue \<Rightarrow> 'a Simple8bBuilder
     \<Rightarrow> 'a Simple8bBuilder" where
  "appendResidual T 0 pv s = s"
| "appendResidual T (Suc k) pv s =
     appendResidual T k pv (snd (snd (appendPending T pv s)))"

text \<open>Modelled from the spec: \<^verbatim>\<open>_handleRleTermination\<close> (section 4.5).\<close>

definition handleRleTermination ::
  "'a SelectorTables \<Rightarrow> 'a Simple8bBuilder \<Rightarrow> 'a Simple8bBuilder" where
  "handleRleTermination T s =
     (if rleCount s = 0 then s
      else let s1 = appendRleEncoding T s;
               s2 = appendResidual T (unat (rleCount s1)) (lastValueInPrevWord s1) s1
           in s2\<lparr> rleCount := 0 \<rparr>)"

text \<open>
  Modelled from the spec: \<^verbatim>\<open>_rlePossible\<close>, whose body is in simple8b.cpp. The
  header says that it checks whether a run is possible and/or ongoing (lines 123
  to 126). A run is ongoing when \<^verbatim>\<open>_rleCount\<close> is positive (section 3.4, step 1 of
  section 4.2). A run is possible when nothing is pending: a run repeats the last
  value of the previous word (header lines 172 to 175, section 6), so it can only
  begin where a word ends, and the fresh builder, with nothing pending and a
  count of zero, admits the run that begins a stream (header line 60, sections 6,
  8 and 9).
\<close>

definition rlePossible :: "'a Simple8bBuilder \<Rightarrow> bool" where
  "rlePossible s \<longleftrightarrow> pendingValues s = [] \<or> rleCount s \<noteq> 0"

text \<open>
  Modelled from the spec: \<^verbatim>\<open>Simple8bBuilder::append\<close> (section 4.2, and the
  header's comment on the function, lines 58 to 64). Step 1: where a run is
  possible or ongoing, a value equal to \<^verbatim>\<open>_lastValueInPrevWord\<close> is counted into
  the run, and any other value ends the run. Then steps 2 to 5. The result is the
  returned flag and the builder afterwards.
\<close>

definition Simple8bBuilder_append ::
  "'a SelectorTables \<Rightarrow> 'a \<Rightarrow> 'a Simple8bBuilder \<Rightarrow> bool \<times> 'a Simple8bBuilder" where
  "Simple8bBuilder_append T v s =
     (if rlePossible s
      then (if val (lastValueInPrevWord s) = v \<and> \<not> skip (lastValueInPrevWord s)
            then (True, s\<lparr> rleCount := rleCount s + 1 \<rparr>)
            else appendValue T v True (handleRleTermination T s))
      else appendValue T v True s)"

text \<open>Modelled from the spec: \<^verbatim>\<open>Simple8bBuilder::skip\<close> (section 4.3).\<close>

definition Simple8bBuilder_skip ::
  "'a SelectorTables \<Rightarrow> ('a::zero) Simple8bBuilder \<Rightarrow> 'a Simple8bBuilder" where
  "Simple8bBuilder_skip T s = appendSkip T (handleRleTermination T s)"

text \<open>
  Modelled from the spec: the loop of \<^verbatim>\<open>Simple8bBuilder::flush\<close> (section 4.7):
  pack and emit until nothing is pending. The first argument bounds the number of
  rounds; \<open>flushPending_empties\<close> shows that the length of the queue is enough.
\<close>

primrec flushPending ::
  "'a SelectorTables \<Rightarrow> nat \<Rightarrow> 'a Simple8bBuilder \<Rightarrow> 'a Simple8bBuilder" where
  "flushPending T 0 s = s"
| "flushPending T (Suc k) s =
     (if pendingValues s = [] then s
      else flushPending T k
             (encodeLargestPossibleWord T (unat (lastValidExtensionType s)) s))"

text \<open>Modelled from the spec: \<^verbatim>\<open>Simple8bBuilder::flush\<close> (section 4.7).\<close>

definition Simple8bBuilder_flush ::
  "'a SelectorTables \<Rightarrow> 'a Simple8bBuilder \<Rightarrow> 'a Simple8bBuilder" where
  "Simple8bBuilder_flush T s =
     (let s1 = handleRleTermination T s
      in flushPending T (length (pendingValues s1)) s1)"

text \<open>
  The calls a client can make on a builder, and a builder driven through a
  sequence of them from its construction. The flag an \<^verbatim>\<open>append\<close> returns does not
  influence the builder.
\<close>

datatype 'a call = Append 'a | Skip | Flush

fun call_step ::
  "'a SelectorTables \<Rightarrow> ('a::zero) Simple8bBuilder \<Rightarrow> 'a call \<Rightarrow> 'a Simple8bBuilder" where
  "call_step T s (Append v) = snd (Simple8bBuilder_append T v s)"
| "call_step T s Skip = Simple8bBuilder_skip T s"
| "call_step T s Flush = Simple8bBuilder_flush T s"

definition run_calls ::
  "'a SelectorTables \<Rightarrow> ('a::zero) call list \<Rightarrow> 'a Simple8bBuilder" where
  "run_calls T cs = foldl (call_step T) Simple8bBuilder_new cs"

text \<open>
  The encoder over a sequence of optional values: \<^verbatim>\<open>append\<close> for a present value,
  \<^verbatim>\<open>skip\<close> for a missing one, then \<^verbatim>\<open>flush\<close>; the result is the sequence of words
  the sink was called with.
\<close>

definition calls_of :: "'a option list \<Rightarrow> 'a call list" where
  "calls_of S = map (\<lambda>x. case x of Some v \<Rightarrow> Append v | None \<Rightarrow> Skip) S @ [Flush]"

definition encode :: "'a SelectorTables \<Rightarrow> ('a::zero) option list \<Rightarrow> 64 word list" where
  "encode T S = writeFn_calls (run_calls T (calls_of S))"

text \<open>
  A builder whose sink has already received the words \<open>w0\<close> before anything else
  happens: the same builder with \<open>w0\<close> in front of the recorded calls.
\<close>

definition sink_holding :: "64 word list \<Rightarrow> 'a Simple8bBuilder \<Rightarrow> 'a Simple8bBuilder" where
  "sink_holding w0 s = s\<lparr> writeFn_calls := w0 @ writeFn_calls s \<rparr>"

section \<open>The parser on strings that fit\<close>

lemma decimal_value_foldl:
  "decimal_value s = foldl (\<lambda>a c. 10 * a + digit_value c) 0 s"
  by (simp add: decimal_value_def horner_sum_foldr foldl_conv_foldr add.commute)

lemma foldl_digits_ge: "a \<le> foldl (\<lambda>a c. 10 * a + digit_value c) a s"
proof (induction s arbitrary: a)
  case Nil
  show ?case by simp
next
  case (Cons c cs)
  have "a \<le> 10 * a + digit_value c" by simp
  also have "\<dots> \<le> foldl (\<lambda>a c. 10 * a + digit_value c) (10 * a + digit_value c) cs"
    by (rule Cons.IH)
  finally show ?case by simp
qed

lemma digit_word:
  assumes "isdigit c"
  shows "(word_of_int (int (of_char c) - 48) :: uint128_t) = of_nat (digit_value c)"
proof -
  from assms have le: "48 \<le> (of_char c :: nat)" by (simp add: isdigit_def)
  have eq: "int (of_char c) - 48 = int (of_char c - 48)"
    using le by linarith
  show ?thesis
    by (simp only: digit_value_def eq of_int_of_nat_eq)
qed

lemma len_numeral_128: "LENGTH(128) = 128"
  by simp

lemma unat_of_nat_128: "a < 2 ^ 128 \<Longrightarrow> unat (of_nat a :: uint128_t) = a"
  by (simp only: unat_of_nat len_numeral_128 mod_less)

lemma loop_no_overflow:
  assumes "\<forall>c\<in>set s. isdigit c"
    and "foldl (\<lambda>a c. 10 * a + digit_value c) a s < 2 ^ 128"
  shows "MakeUint128_loop s (of_nat a) (of_nat a)
         = Some (of_nat (foldl (\<lambda>a c. 10 * a + digit_value c) a s))"
  using assms
proof (induction s arbitrary: a)
  case Nil
  show ?case by simp
next
  case (Cons c cs)
  define a' where "a' = 10 * a + digit_value c"
  from Cons.prems have dig: "isdigit c" and digs: "\<forall>c\<in>set cs. isdigit c" by simp_all
  from Cons.prems have fin: "foldl (\<lambda>a c. 10 * a + digit_value c) a' cs < 2 ^ 128"
    by (simp add: a'_def)
  have "a' \<le> foldl (\<lambda>a c. 10 * a + digit_value c) a' cs" by (rule foldl_digits_ge)
  then have a'_lt: "a' < 2 ^ 128" using fin by (rule le_less_trans)
  have "a \<le> a'" by (simp add: a'_def)
  then have a_lt: "a < 2 ^ 128" using a'_lt by (rule le_less_trans)
  have step: "(of_nat a :: uint128_t) * 10 + word_of_int (int (of_char c) - 48) = of_nat a'"
    by (simp only: digit_word [OF dig] a'_def of_nat_add of_nat_mult of_nat_numeral mult.commute)
  have nolt: "((of_nat a' :: uint128_t) < of_nat a) = False"
    unfolding word_less_nat_alt unat_of_nat_128 [OF a_lt] unat_of_nat_128 [OF a'_lt]
    using \<open>a \<le> a'\<close> by simp
  have dg: "(\<not> isdigit c) = False" using dig by simp
  have "MakeUint128_loop (c # cs) (of_nat a) (of_nat a)
        = MakeUint128_loop cs (of_nat a') (of_nat a')"
    by (simp only: MakeUint128_loop.simps dg if_False step Let_def nolt)
  also have "\<dots> = Some (of_nat (foldl (\<lambda>a c. 10 * a + digit_value c) a' cs))"
    by (rule Cons.IH [OF digs fin])
  finally show ?case by (simp only: foldl_Cons a'_def)
qed

lemma loop_bad_char:
  "\<exists>c\<in>set s. \<not> isdigit c \<Longrightarrow> MakeUint128_loop s a b = None"
  by (induction s arbitrary: a b) (auto simp: Let_def)

lemma MakeUint128FromString_fits:
  assumes ne: "s \<noteq> []" and digs: "\<forall>c\<in>set s. isdigit c"
    and small: "decimal_value s < 2 ^ 128"
  shows "MakeUint128FromString s = Some (of_nat (decimal_value s))"
proof -
  from small have lt: "foldl (\<lambda>a c. 10 * a + digit_value c) 0 s < 2 ^ 128"
    by (simp only: decimal_value_foldl)
  have "MakeUint128FromString s = MakeUint128_loop s (of_nat 0) (of_nat 0)"
    using ne by (simp add: MakeUint128FromString_def)
  also have "\<dots> = Some (of_nat (foldl (\<lambda>a c. 10 * a + digit_value c) 0 s))"
    by (rule loop_no_overflow [OF digs lt])
  finally show ?thesis by (simp only: decimal_value_foldl)
qed

text \<open>
  C8: for a non-empty string \<open>s\<close> of decimal digits whose value is at most
  \<open>2 ^ 128 - 1\<close>, \<^verbatim>\<open>MakeUint128FromString\<close> returns that value (as a 128-bit
  word whose unsigned reading is the value); for the empty string it returns
  none, and for any string \<open>t\<close> holding a character that is not a decimal digit it
  returns none.
\<close>

theorem MakeUint128FromString_digits:
  "(s \<noteq> [] \<and> (\<forall>c\<in>set s. isdigit c) \<and> decimal_value s \<le> 2 ^ 128 - 1
      \<longrightarrow> MakeUint128FromString s = Some (of_nat (decimal_value s))
          \<and> unat (of_nat (decimal_value s) :: uint128_t) = decimal_value s)
   \<and> MakeUint128FromString [] = None
   \<and> ((\<exists>c\<in>set t. \<not> isdigit c) \<longrightarrow> MakeUint128FromString t = None)"
proof (intro conjI impI)
  assume h: "s \<noteq> [] \<and> (\<forall>c\<in>set s. isdigit c) \<and> decimal_value s \<le> 2 ^ 128 - 1"
  then have small: "decimal_value s < 2 ^ 128" by simp
  from h have digs: "\<forall>c\<in>set s. isdigit c" by simp
  from h have ne: "s \<noteq> []" by simp
  show "MakeUint128FromString s = Some (of_nat (decimal_value s))"
    by (rule MakeUint128FromString_fits [OF ne digs small])
  show "unat (of_nat (decimal_value s) :: uint128_t) = decimal_value s"
    using small by (rule unat_of_nat_128)
next
  show "MakeUint128FromString [] = None" by (simp add: MakeUint128FromString_def)
next
  assume "\<exists>c\<in>set t. \<not> isdigit c"
  then show "MakeUint128FromString t = None"
    by (auto simp: MakeUint128FromString_def loop_bad_char)
qed

theorem MakeUint128FromString_digits_witness:
  "MakeUint128FromString ''1234'' = Some 1234
   \<and> unat (1234 :: uint128_t) = 1234
   \<and> MakeUint128FromString ''234C'' = None"
  using MakeUint128FromString_digits [of "''1234''" "''234C''"]
  by (simp add: isdigit_def decimal_value_def digit_value_def)

section \<open>Overflow that the per-digit check misses\<close>

text \<open>
  C9: a string of decimal digits whose value exceeds \<open>2 ^ 128 - 1\<close> should be
  refused. The check \<^verbatim>\<open>prevVal > startingVal\<close> only sees a wrapped value that is
  smaller than the previous one. At \<open>10 ^ 39\<close> the running value goes from
  \<open>10 ^ 38\<close> to \<open>10 ^ 39 mod 2 ^ 128\<close>, which is larger, and the function
  returns that wrapped value.
\<close>

theorem MakeUint128FromString_overflow_undetected:
  "MakeUint128FromString ''1000000000000000000000000000000000000000''
   = Some 319435266158123073073250785136463577088"
  by (simp add: MakeUint128FromString_def isdigit_def)

text \<open>
  C10: \<^verbatim>\<open>MakeInt128FromString\<close> should return none for every magnitude above
  \<open>2 ^ 127 - 1\<close>. The magnitude \<open>4 * 10 ^ 38\<close> wraps in the unsigned parser to
  \<open>4 * 10 ^ 38 - 2 ^ 128\<close>, which is below \<^verbatim>\<open>Int128Max\<close>, and is returned.
\<close>

theorem MakeInt128FromString_wrapped_magnitude:
  "MakeInt128FromString ''400000000000000000000000000000000000000''
   = Some 59717633079061536536625392568231788544"
  by (simp add: MakeInt128FromString_def MakeUint128FromString_def isdigit_def Int128Max_def)

lemma MakeInt128FromString_min_rejected:
  "MakeInt128FromString ''-170141183460469231731687303715884105728'' = None"
  by (simp add: MakeInt128FromString_def MakeUint128FromString_def isdigit_def Int128Max_def)

lemma MakeInt128FromString_tests:
  "map_option sint (MakeInt128FromString ''-1234'') = Some (- 1234)"
  "map_option sint (MakeInt128FromString ''170141183460469231731687303715884105727'')
     = Some (2 ^ 127 - 1)"
  "MakeInt128FromString '''' = None"
  "MakeInt128FromString ''234C'' = None"
  by (simp_all add: MakeInt128FromString_def MakeUint128FromString_def isdigit_def Int128Max_def)

section \<open>The signed parser on magnitudes that fit\<close>

text \<open>
  Apart from the wrapped magnitudes, \<^verbatim>\<open>MakeInt128FromString\<close> behaves as intended:
  digits with an optional leading minus sign and a magnitude of at most
  \<open>2 ^ 127 - 1\<close> are accepted with the right value, and the empty string, a lone
  minus sign and strings with another character that is not a digit are refused.
\<close>

lemma unat_Int128Max: "unat Int128Max = 2 ^ 127 - 1"
  by (simp add: Int128Max_def)

lemma minus_not_digit: "\<not> isdigit CHR ''-''"
  by (simp add: isdigit_def)

lemma MakeInt128FromString_in_range:
  assumes ne: "s \<noteq> []" and digs: "\<forall>c\<in>set s. isdigit c"
    and small: "decimal_value s \<le> 2 ^ 127 - 1"
  shows "MakeInt128FromString s = Some (of_nat (decimal_value s))"
    and "MakeInt128FromString (CHR ''-'' # s) = Some (- of_nat (decimal_value s))"
proof -
  from small have lt: "decimal_value s < 2 ^ 128" by simp
  have u: "MakeUint128FromString s = Some (of_nat (decimal_value s))"
    by (rule MakeUint128FromString_fits [OF ne digs lt])
  have "unat (of_nat (decimal_value s) :: uint128_t) = decimal_value s"
    using lt by (rule unat_of_nat_128)
  with small have le: "\<not> Int128Max < (of_nat (decimal_value s) :: uint128_t)"
    by (simp only: word_less_nat_alt unat_Int128Max not_less)
  from ne digs have "isdigit (hd s)" by (cases s) simp_all
  with minus_not_digit have nohd: "hd s \<noteq> CHR ''-''" by auto
  show "MakeInt128FromString s = Some (of_nat (decimal_value s))"
    using ne nohd u le by (simp add: MakeInt128FromString_def)
  show "MakeInt128FromString (CHR ''-'' # s) = Some (- of_nat (decimal_value s))"
    using u le by (simp add: MakeInt128FromString_def)
qed

lemma MakeInt128FromString_none:
  "MakeInt128FromString [] = None"
  "\<exists>c\<in>set s. \<not> isdigit c \<Longrightarrow> hd s \<noteq> CHR ''-'' \<Longrightarrow> MakeInt128FromString s = None"
  "\<exists>c\<in>set s. \<not> isdigit c \<Longrightarrow> MakeInt128FromString (CHR ''-'' # s) = None"
  "MakeInt128FromString ''-'' = None"
  by (auto simp: MakeInt128FromString_def MakeUint128FromString_def loop_bad_char)

section \<open>The fresh builder\<close>

text \<open>
  C5: the per-family minimum meaningful-bit counts \<^verbatim>\<open>kMinDataBits\<close> are exactly
  1, 2, 4 and 4, and in a freshly constructed builder \<^verbatim>\<open>_currMaxBitLen\<close> holds
  these same four values.
\<close>

theorem kMinDataBits_and_initial_currMaxBitLen:
  "kMinDataBits = [1, 2, 4, 4]
   \<and> length kMinDataBits = kNumOfSelectorTypes
   \<and> currMaxBitLen (Simple8bBuilder_new :: ('a::zero) Simple8bBuilder) = kMinDataBits
   \<and> currMaxBitLen (Simple8bBuilder_new :: ('a::zero) Simple8bBuilder) = [1, 2, 4, 4]"
  by (simp add: kMinDataBits_def kNumOfSelectorTypes_def Simple8bBuilder_new_def)

section \<open>Iterator equality\<close>

text \<open>
  C7: two iterators compare equal exactly when their position and their slot
  shift agree; no other member (the loaded word, the loaded value, the slot mask,
  the remaining run length, the slot geometry, the selector, the end of the
  buffer) has an influence, and \<^verbatim>\<open>operator!=\<close> is the negation.
\<close>

theorem iterator_equality:
  "operator_eq a b = (pos a = pos b \<and> shift a = shift b)
   \<and> operator_neq a b = (\<not> operator_eq a b)
   \<and> operator_eq
        (a\<lparr> end_it := e, current := c, value_it := v, mask_it := m, rleRemaining := r,
            bitsPerValue := bp, countMask := cm, countBits := cb, countMultiplier := cx,
            selector := sl, extensionType := et \<rparr>) b
      = operator_eq a b"
  by (simp add: operator_eq_def operator_neq_def)

section \<open>The run-length count and the pending queue\<close>

lemma rleCount_updateSimple8bCurrentState [simp]:
  "rleCount (updateSimple8bCurrentState pv s) = rleCount s"
  by (simp add: updateSimple8bCurrentState_def)

lemma pendingValues_updateSimple8bCurrentState [simp]:
  "pendingValues (updateSimple8bCurrentState pv s) = pendingValues s"
  by (simp add: updateSimple8bCurrentState_def)

lemma rleCount_pushPendingValue [simp]:
  "rleCount (pushPendingValue pv s) = rleCount s"
  by (simp add: pushPendingValue_def)

lemma pendingValues_pushPendingValue [simp]:
  "pendingValues (pushPendingValue pv s) = pendingValues s @ [pv]"
  by (simp add: pushPendingValue_def)

lemma fitGiven_keeps:
  "rleCount (snd (doesIntegerFitInCurrentWordWithGivenSelectorType T pv f s)) = rleCount s
   \<and> pendingValues (snd (doesIntegerFitInCurrentWordWithGivenSelectorType T pv f s))
       = pendingValues s"
  by (simp add: doesIntegerFitInCurrentWordWithGivenSelectorType_def)

lemma fitInFamilies_keeps:
  "rleCount (snd (fitInFamilies T pv fs s)) = rleCount s
   \<and> pendingValues (snd (fitInFamilies T pv fs s)) = pendingValues s"
proof (induction fs arbitrary: s)
  case Nil
  show ?case by simp
next
  case (Cons f fs)
  obtain b s' where g: "doesIntegerFitInCurrentWordWithGivenSelectorType T pv f s = (b, s')"
    by (cases "doesIntegerFitInCurrentWordWithGivenSelectorType T pv f s")
  with fitGiven_keeps [of T pv f s]
  have k: "rleCount s' = rleCount s" "pendingValues s' = pendingValues s" by simp_all
  show ?case
    using g k Cons.IH [of s'] Cons.IH [of s] by (cases b) simp_all
qed

lemma rleCount_doesIntegerFit [simp]:
  "rleCount (snd (doesIntegerFitInCurrentWord T pv s)) = rleCount s"
  by (simp only: doesIntegerFitInCurrentWord_def fitInFamilies_keeps)

lemma pendingValues_doesIntegerFit [simp]:
  "pendingValues (snd (doesIntegerFitInCurrentWord T pv s)) = pendingValues s"
  by (simp only: doesIntegerFitInCurrentWord_def fitInFamilies_keeps)

lemma rescan_fold:
  "rleCount (foldl (rescanPendingValue T) s ps) = rleCount s
   \<and> pendingValues (foldl (rescanPendingValue T) s ps) = pendingValues s @ ps"
  by (induction ps arbitrary: s) (simp_all add: rescanPendingValue_def)

lemma rleCount_encodeLargestPossibleWord [simp]:
  "rleCount (encodeLargestPossibleWord T f s) = rleCount s"
  by (simp add: encodeLargestPossibleWord_def Let_def rescan_fold)

lemma pendingValues_encodeLargestPossibleWord:
  "pendingValues s \<noteq> [] \<Longrightarrow>
   length (pendingValues (encodeLargestPossibleWord T f s)) < length (pendingValues s)"
  by (simp add: encodeLargestPossibleWord_def Let_def rescan_fold)

lemma rleCount_appendPending [simp]:
  "rleCount (snd (snd (appendPending T pv s))) = rleCount s"
proof -
  obtain b s1 where f1: "doesIntegerFitInCurrentWord T pv s = (b, s1)"
    by (cases "doesIntegerFitInCurrentWord T pv s")
  then have r1: "rleCount s1 = rleCount s"
    using rleCount_doesIntegerFit [of T pv s] by simp
  define s2 where "s2 = encodeLargestPossibleWord T (unat (lastValidExtensionType s1)) s1"
  obtain b' s3 where f2: "doesIntegerFitInCurrentWord T pv s2 = (b', s3)"
    by (cases "doesIntegerFitInCurrentWord T pv s2")
  then have r3: "rleCount s3 = rleCount s2"
    using rleCount_doesIntegerFit [of T pv s2] by simp
  have r2: "rleCount s2 = rleCount s1" by (simp add: s2_def)
  show ?thesis
    using f1 f2 r1 r2 r3
    by (cases b; cases b') (simp_all add: appendPending_def s2_def [symmetric])
qed

lemma rleCount_appendResidual [simp]:
  "rleCount (appendResidual T k pv s) = rleCount s"
  by (induction k arbitrary: s) simp_all

lemma rleCount_handleRleTermination [simp]:
  "rleCount (handleRleTermination T s) = 0"
  by (simp add: handleRleTermination_def Let_def)

lemma appendValue_rle_pending:
  assumes "rleCount s = 0"
  shows "0 < rleCount (snd (appendValue T v tryRle s))
         \<longrightarrow> pendingValues (snd (appendValue T v tryRle s)) = []"
proof -
  obtain ok emitted s1 where ap: "appendPending T (makePendingValue T v) s = (ok, emitted, s1)"
    by (cases "appendPending T (makePendingValue T v) s")
  then have "rleCount s1 = rleCount s"
    using rleCount_appendPending [of T "makePendingValue T v" s] by simp
  with assms have "rleCount s1 = 0" by simp
  then show ?thesis
    using ap by (cases ok) (simp_all add: appendValue_def)
qed

lemma append_equal_value:
  assumes "rlePossible s" and "val (lastValueInPrevWord s) = v"
    and "\<not> skip (lastValueInPrevWord s)"
  shows "Simple8bBuilder_append T v s = (True, s\<lparr> rleCount := rleCount s + 1 \<rparr>)"
  using assms by (simp add: Simple8bBuilder_append_def)

lemma append_rle_pending:
  assumes "0 < rleCount s \<longrightarrow> pendingValues s = []"
  shows "0 < rleCount (snd (Simple8bBuilder_append T v s))
         \<longrightarrow> pendingValues (snd (Simple8bBuilder_append T v s)) = []"
proof (cases "rlePossible s")
  case True
  show ?thesis
  proof (cases "val (lastValueInPrevWord s) = v \<and> \<not> skip (lastValueInPrevWord s)")
    case eq: True
    have "pendingValues s = []"
    proof (cases "rleCount s = 0")
      case True
      with \<open>rlePossible s\<close> show ?thesis by (simp add: rlePossible_def)
    next
      case False
      then have "0 < rleCount s" by (simp add: word_gt_0)
      with assms show ?thesis by simp
    qed
    with eq \<open>rlePossible s\<close> show ?thesis by (simp add: Simple8bBuilder_append_def)
  next
    case False
    with \<open>rlePossible s\<close>
    have "Simple8bBuilder_append T v s = appendValue T v True (handleRleTermination T s)"
      by (auto simp: Simple8bBuilder_append_def)
    then show ?thesis by (simp add: appendValue_rle_pending)
  qed
next
  case False
  then have z: "rleCount s = 0" by (simp add: rlePossible_def)
  from False have "Simple8bBuilder_append T v s = appendValue T v True s"
    by (simp add: Simple8bBuilder_append_def)
  with z show ?thesis by (simp add: appendValue_rle_pending)
qed

lemma rleCount_skip: "rleCount (Simple8bBuilder_skip T s) = 0"
  by (simp add: Simple8bBuilder_skip_def appendSkip_def)

lemma rleCount_flushPending: "rleCount (flushPending T k s) = rleCount s"
  by (induction k arbitrary: s) simp_all

lemma rleCount_flush: "rleCount (Simple8bBuilder_flush T s) = 0"
  by (simp add: Simple8bBuilder_flush_def Let_def rleCount_flushPending)

lemma flushPending_empties:
  "length (pendingValues s) \<le> k \<Longrightarrow> pendingValues (flushPending T k s) = []"
proof (induction k arbitrary: s)
  case 0
  then show ?case by simp
next
  case (Suc k)
  show ?case
  proof (cases "pendingValues s = []")
    case True
    then show ?thesis by simp
  next
    case False
    from pendingValues_encodeLargestPossibleWord [OF False, of T "unat (lastValidExtensionType s)"]
      Suc.prems
    have "length (pendingValues
            (encodeLargestPossibleWord T (unat (lastValidExtensionType s)) s)) \<le> k"
      by simp
    from Suc.IH [OF this] False show ?thesis by simp
  qed
qed

lemma flush_empties: "pendingValues (Simple8bBuilder_flush T s) = []"
  by (simp add: Simple8bBuilder_flush_def Let_def flushPending_empties)

lemma call_step_rle_pending:
  assumes "0 < rleCount s \<longrightarrow> pendingValues s = []"
  shows "0 < rleCount (call_step T s c) \<longrightarrow> pendingValues (call_step T s c) = []"
proof (cases c)
  case (Append v)
  with append_rle_pending [OF assms, of T v] show ?thesis by simp
next
  case Skip
  then show ?thesis by (simp add: rleCount_skip)
next
  case Flush
  then show ?thesis by (simp add: rleCount_flush)
qed

lemma foldl_call_step_rle_pending:
  "0 < rleCount s \<longrightarrow> pendingValues s = [] \<Longrightarrow>
   0 < rleCount (foldl (call_step T) s cs) \<longrightarrow> pendingValues (foldl (call_step T) s cs) = []"
proof (induction cs arbitrary: s)
  case Nil
  then show ?case by simp
next
  case (Cons c cs)
  from Cons.IH [OF call_step_rle_pending [OF Cons.prems, of T c]] show ?case by simp
qed

text \<open>
  C4: in every builder reached from a freshly constructed one by a sequence of
  \<^verbatim>\<open>append\<close>, \<^verbatim>\<open>skip\<close> and \<^verbatim>\<open>flush\<close> calls, a positive \<^verbatim>\<open>_rleCount\<close> implies
  that \<^verbatim>\<open>_pendingValues\<close> is empty, whatever the selector tables are.
\<close>

theorem rle_active_implies_no_pending:
  "0 < rleCount (run_calls T cs) \<longrightarrow> pendingValues (run_calls T cs) = []"
  unfolding run_calls_def
  by (rule foldl_call_step_rle_pending) (simp add: Simple8bBuilder_new_def)

theorem rle_active_implies_no_pending_witness:
  "\<forall>T :: (64 word) SelectorTables.
     0 < rleCount (run_calls T [Append 0, Append 0])
     \<and> pendingValues (run_calls T [Append 0, Append 0]) = []"
proof
  fix T :: "(64 word) SelectorTables"
  have "0 < rleCount (run_calls T [Append 0, Append 0])"
    by (simp add: run_calls_def Simple8bBuilder_append_def rlePossible_def
        Simple8bBuilder_new_def)
  with rle_active_implies_no_pending [of T "[Append 0, Append 0]"]
  show "0 < rleCount (run_calls T [Append 0, Append 0])
        \<and> pendingValues (run_calls T [Append 0, Append 0]) = []"
    by simp
qed

section \<open>The run at the start of a stream\<close>

text \<open>
  Where nothing is pending, a value equal to \<^verbatim>\<open>_lastValueInPrevWord\<close> is counted
  into a run without consulting the tables. On a fresh builder that value is
  zero, so zeros at the start of a stream are counted and nothing is queued or
  written for them until the run ends.
\<close>

lemma rlePossible_new: "rlePossible (Simple8bBuilder_new\<lparr> rleCount := k \<rparr>)"
  by (simp add: rlePossible_def Simple8bBuilder_new_def)

lemma append_zero_at_start:
  "Simple8bBuilder_append T 0 (Simple8bBuilder_new\<lparr> rleCount := k \<rparr>)
   = (True, Simple8bBuilder_new\<lparr> rleCount := k + 1 \<rparr>)"
  by (simp add: Simple8bBuilder_append_def rlePossible_def Simple8bBuilder_new_def)

lemma zeros_at_start:
  "foldl (call_step T) (Simple8bBuilder_new\<lparr> rleCount := k \<rparr>) (replicate n (Append 0))
   = Simple8bBuilder_new\<lparr> rleCount := k + of_nat n \<rparr>"
proof (induction n arbitrary: k)
  case 0
  show ?case by simp
next
  case (Suc n)
  show ?case by (simp add: append_zero_at_start Suc.IH add.assoc add.commute)
qed

lemma new_rleCount_0: "Simple8bBuilder_new\<lparr> rleCount := 0 \<rparr> = Simple8bBuilder_new"
  by (simp add: Simple8bBuilder_new_def)

lemma run_calls_zeros:
  "run_calls T (replicate n (Append 0)) = Simple8bBuilder_new\<lparr> rleCount := of_nat n \<rparr>"
  using zeros_at_start [of T 0 n] by (simp add: run_calls_def new_rleCount_0)

lemma appendPending_nothing_pending:
  assumes "pendingValues s = []"
  shows "\<not> fst (snd (appendPending T pv s))"
proof -
  obtain b s1 where f1: "doesIntegerFitInCurrentWord T pv s = (b, s1)"
    by (cases "doesIntegerFitInCurrentWord T pv s")
  then have p1: "pendingValues s1 = []"
    using pendingValues_doesIntegerFit [of T pv s] assms by simp
  define s2 where "s2 = encodeLargestPossibleWord T (unat (lastValidExtensionType s1)) s1"
  obtain b' s3 where f2: "doesIntegerFitInCurrentWord T pv s2 = (b', s3)"
    by (cases "doesIntegerFitInCurrentWord T pv s2")
  show ?thesis
    using f1 f2 p1
    by (cases b; cases b') (simp_all add: appendPending_def s2_def [symmetric])
qed

lemma appendValue_nothing_pending:
  assumes "pendingValues s = []"
  shows "rleCount (snd (appendValue T v tryRle s)) = rleCount s"
proof -
  obtain ok emitted s1 where ap: "appendPending T (makePendingValue T v) s = (ok, emitted, s1)"
    by (cases "appendPending T (makePendingValue T v) s")
  then have r: "rleCount s1 = rleCount s"
    using rleCount_appendPending [of T "makePendingValue T v" s] by simp
  from ap appendPending_nothing_pending [OF assms, of T "makePendingValue T v"]
  have "\<not> emitted" by simp
  with ap r show ?thesis by (cases ok) (simp_all add: appendValue_def)
qed

lemma first_append:
  "rleCount (snd (Simple8bBuilder_append T v Simple8bBuilder_new)) = (if v = 0 then 1 else 0)"
proof (cases "v = 0")
  case True
  with append_zero_at_start [of T 0] show ?thesis by (simp add: new_rleCount_0)
next
  case False
  have h: "handleRleTermination T Simple8bBuilder_new = Simple8bBuilder_new"
    by (simp add: handleRleTermination_def Simple8bBuilder_new_def)
  have "Simple8bBuilder_append T v Simple8bBuilder_new = appendValue T v True Simple8bBuilder_new"
    using False
    by (simp add: Simple8bBuilder_append_def rlePossible_def h)
       (simp add: Simple8bBuilder_new_def)
  moreover have "rleCount (snd (appendValue T v True Simple8bBuilder_new)) = 0"
    using appendValue_nothing_pending [of Simple8bBuilder_new T v True]
    by (simp add: Simple8bBuilder_new_def)
  ultimately show ?thesis using False by simp
qed

lemma encode_zeros_240:
  "encode T (replicate 240 (Some 0)) = rleWords T 240"
proof -
  have c: "calls_of (replicate 240 (Some (0::'a))) = replicate 240 (Append 0) @ [Flush]"
    by (simp add: calls_of_def)
  have "run_calls T (replicate 240 (Append 0) @ [Flush])
        = Simple8bBuilder_flush T (run_calls T (replicate 240 (Append 0)))"
    by (simp add: run_calls_def)
  also have "\<dots> = Simple8bBuilder_flush T (Simple8bBuilder_new\<lparr> rleCount := 240 \<rparr>)"
    by (simp only: run_calls_zeros of_nat_numeral)
  finally have "writeFn_calls (run_calls T (replicate 240 (Append 0) @ [Flush])) = rleWords T 240"
    by (simp add: Simple8bBuilder_flush_def handleRleTermination_def appendRleEncoding_def
        kRleMinLength_def Simple8bBuilder_new_def Let_def)
  with c show ?thesis by (simp add: encode_def)
qed

text \<open>
  C6: in a freshly constructed builder \<^verbatim>\<open>_lastValueInPrevWord\<close> is the value 0
  with \<^verbatim>\<open>skip = false\<close> and all per-family bit counts and trailing-zero counts
  zero, no run is active and a run is possible. So a run that begins at the very
  start of the stream repeats zero: the first \<^verbatim>\<open>append\<close> begins a run exactly
  when its value is 0; \<open>n\<close> zeros at the start are all counted into the run, with
  nothing queued, nothing written and the seed unchanged; and a stream of 240
  zeros is written as the run-length words of a run of 240 alone, with no packed
  word before them that would carry the value.
\<close>

theorem initial_lastValueInPrevWord:
  "lastValueInPrevWord (Simple8bBuilder_new :: ('a::zero) Simple8bBuilder)
     = \<lparr> val = 0, bitCount = [0, 0, 0, 0], trailingZerosCount = [0, 0, 0, 0],
         skip = False \<rparr>
   \<and> val (lastValueInPrevWord (Simple8bBuilder_new :: 'a Simple8bBuilder)) = 0
   \<and> skip (lastValueInPrevWord (Simple8bBuilder_new :: 'a Simple8bBuilder)) = False
   \<and> rleCount (Simple8bBuilder_new :: 'a Simple8bBuilder) = 0
   \<and> rlePossible (Simple8bBuilder_new :: 'a Simple8bBuilder)
   \<and> rleCount (snd (Simple8bBuilder_append T v Simple8bBuilder_new)) = (if v = 0 then 1 else 0)
   \<and> run_calls T (replicate n (Append 0)) = Simple8bBuilder_new\<lparr> rleCount := of_nat n \<rparr>
   \<and> encode T (replicate 240 (Some 0)) = rleWords T 240"
  using rlePossible_new [of 0, where 'a = 'a] first_append [of T v] run_calls_zeros [of T n]
    encode_zeros_240 [of T]
  by (simp add: new_rleCount_0) (simp add: Simple8bBuilder_new_def)

section \<open>The sink does not influence the encoder\<close>

lemma sink_holding_fields [simp]:
  "rleCount (sink_holding w0 s) = rleCount s"
  "lastValueInPrevWord (sink_holding w0 s) = lastValueInPrevWord s"
  "currMaxBitLen (sink_holding w0 s) = currMaxBitLen s"
  "currTrailingZerosCount (sink_holding w0 s) = currTrailingZerosCount s"
  "lastValidExtensionType (sink_holding w0 s) = lastValidExtensionType s"
  "isSelectorPossible (sink_holding w0 s) = isSelectorPossible s"
  "pendingValues (sink_holding w0 s) = pendingValues s"
  "writeFn_calls (sink_holding w0 s) = w0 @ writeFn_calls s"
  by (simp_all add: sink_holding_def)

lemma sink_holding_updates:
  "sink_holding w0 (s\<lparr> rleCount := r \<rparr>) = (sink_holding w0 s)\<lparr> rleCount := r \<rparr>"
  "sink_holding w0 (s\<lparr> lastValueInPrevWord := l \<rparr>)
     = (sink_holding w0 s)\<lparr> lastValueInPrevWord := l \<rparr>"
  "sink_holding w0 (s\<lparr> pendingValues := p \<rparr>) = (sink_holding w0 s)\<lparr> pendingValues := p \<rparr>"
  by (simp_all add: sink_holding_def)

lemma sink_pushPendingValue:
  "pushPendingValue pv (sink_holding w0 s) = sink_holding w0 (pushPendingValue pv s)"
  by (simp add: pushPendingValue_def updateSimple8bCurrentState_def sink_holding_def)

lemma sink_fitGiven:
  "doesIntegerFitInCurrentWordWithGivenSelectorType T pv f (sink_holding w0 s)
   = apsnd (sink_holding w0) (doesIntegerFitInCurrentWordWithGivenSelectorType T pv f s)"
  by (simp add: doesIntegerFitInCurrentWordWithGivenSelectorType_def sink_holding_def)

lemma sink_fitInFamilies:
  "fitInFamilies T pv fs (sink_holding w0 s) = apsnd (sink_holding w0) (fitInFamilies T pv fs s)"
proof (induction fs arbitrary: s)
  case Nil
  show ?case by simp
next
  case (Cons f fs)
  obtain b s' where g: "doesIntegerFitInCurrentWordWithGivenSelectorType T pv f s = (b, s')"
    by (cases "doesIntegerFitInCurrentWordWithGivenSelectorType T pv f s")
  show ?case
    using g Cons.IH [of s'] Cons.IH [of s] by (cases b) (simp_all add: sink_fitGiven)
qed

lemma sink_doesIntegerFit:
  "doesIntegerFitInCurrentWord T pv (sink_holding w0 s)
   = apsnd (sink_holding w0) (doesIntegerFitInCurrentWord T pv s)"
  by (simp only: doesIntegerFitInCurrentWord_def sink_fitInFamilies)

lemma sink_rescan:
  "rescanPendingValue T (sink_holding w0 s) pv = sink_holding w0 (rescanPendingValue T s pv)"
  by (simp add: rescanPendingValue_def sink_doesIntegerFit sink_pushPendingValue)

lemma sink_rescan_fold:
  "foldl (rescanPendingValue T) (sink_holding w0 s) ps
   = sink_holding w0 (foldl (rescanPendingValue T) s ps)"
  by (induction ps arbitrary: s) (simp_all add: sink_rescan)

lemma sink_encodeLargest:
  "encodeLargestPossibleWord T f (sink_holding w0 s)
   = sink_holding w0 (encodeLargestPossibleWord T f s)"
proof (cases "pendingValues s = []")
  case True
  then show ?thesis by (simp add: encodeLargestPossibleWord_def sink_holding_def)
next
  case False
  define pend where "pend = pendingValues s"
  define n where "n = max 1 (min (slotCountFor T f (currMaxBitLen s ! f)
                                 (currTrailingZerosCount s ! f) (length pend)) (length pend))"
  define s1 where "s1 = s\<lparr> lastValueInPrevWord := last (take n pend),
                       currMaxBitLen := kMinDataBits,
                       currTrailingZerosCount := [0, 0, 0, 0],
                       isSelectorPossible := [True, True, True, True],
                       pendingValues := [],
                       writeFn_calls := writeFn_calls s @ [encodeWord T f (take n pend)] \<rparr>"
  have a: "encodeLargestPossibleWord T f s = foldl (rescanPendingValue T) s1 (drop n pend)"
    using False by (simp add: encodeLargestPossibleWord_def Let_def s1_def n_def pend_def)
  have b: "encodeLargestPossibleWord T f (sink_holding w0 s)
           = foldl (rescanPendingValue T) (sink_holding w0 s1) (drop n pend)"
    using False
    by (simp add: encodeLargestPossibleWord_def Let_def s1_def n_def pend_def)
       (simp add: sink_holding_def)
  show ?thesis by (simp only: a b sink_rescan_fold)
qed

lemma sink_appendPending:
  "appendPending T pv (sink_holding w0 s)
   = apsnd (apsnd (sink_holding w0)) (appendPending T pv s)"
proof -
  obtain b s1 where f1: "doesIntegerFitInCurrentWord T pv s = (b, s1)"
    by (cases "doesIntegerFitInCurrentWord T pv s")
  define s2 where "s2 = encodeLargestPossibleWord T (unat (lastValidExtensionType s1)) s1"
  obtain b' s3 where f2: "doesIntegerFitInCurrentWord T pv s2 = (b', s3)"
    by (cases "doesIntegerFitInCurrentWord T pv s2")
  show ?thesis
    using f1 f2
    by (cases b; cases b')
       (simp_all add: appendPending_def sink_doesIntegerFit sink_pushPendingValue
          sink_encodeLargest s2_def [symmetric])
qed

lemma sink_appendValue:
  "appendValue T v tryRle (sink_holding w0 s)
   = apsnd (sink_holding w0) (appendValue T v tryRle s)"
proof -
  obtain ok emitted s1 where ap: "appendPending T (makePendingValue T v) s = (ok, emitted, s1)"
    by (cases "appendPending T (makePendingValue T v) s")
  show ?thesis
    using ap by (cases ok) (simp_all add: appendValue_def sink_appendPending sink_holding_updates)
qed

lemma sink_appendSkip:
  "appendSkip T (sink_holding w0 s) = sink_holding w0 (appendSkip T s)"
  by (simp add: appendSkip_def sink_appendPending)

lemma sink_appendRleEncoding:
  "appendRleEncoding T (sink_holding w0 s) = sink_holding w0 (appendRleEncoding T s)"
  by (simp add: appendRleEncoding_def sink_holding_def)

lemma sink_appendResidual:
  "appendResidual T k pv (sink_holding w0 s) = sink_holding w0 (appendResidual T k pv s)"
  by (induction k arbitrary: s) (simp_all add: sink_appendPending)

lemma sink_handleRleTermination:
  "handleRleTermination T (sink_holding w0 s) = sink_holding w0 (handleRleTermination T s)"
  by (simp add: handleRleTermination_def Let_def sink_appendRleEncoding sink_appendResidual
        sink_holding_updates)

lemma sink_append:
  "Simple8bBuilder_append T v (sink_holding w0 s)
   = apsnd (sink_holding w0) (Simple8bBuilder_append T v s)"
  by (simp add: Simple8bBuilder_append_def rlePossible_def sink_handleRleTermination
        sink_appendValue sink_holding_updates)

lemma sink_skip:
  "Simple8bBuilder_skip T (sink_holding w0 s) = sink_holding w0 (Simple8bBuilder_skip T s)"
  by (simp add: Simple8bBuilder_skip_def sink_handleRleTermination sink_appendSkip)

lemma sink_flushPending:
  "flushPending T k (sink_holding w0 s) = sink_holding w0 (flushPending T k s)"
  by (induction k arbitrary: s) (simp_all add: sink_encodeLargest)

lemma sink_flush:
  "Simple8bBuilder_flush T (sink_holding w0 s) = sink_holding w0 (Simple8bBuilder_flush T s)"
  by (simp add: Simple8bBuilder_flush_def Let_def sink_handleRleTermination sink_flushPending)

lemma sink_call_step:
  "call_step T (sink_holding w0 s) c = sink_holding w0 (call_step T s c)"
  by (cases c) (simp_all add: sink_append sink_skip sink_flush)

lemma sink_foldl_call_step:
  "foldl (call_step T) (sink_holding w0 s) cs = sink_holding w0 (foldl (call_step T) s cs)"
  by (induction cs arbitrary: s) (simp_all add: sink_call_step)

text \<open>
  C2: the words the encoder hands to the sink are determined by the input
  sequence alone. Two runs over the same sequence \<open>S\<close>, one with a sink that has
  received \<open>w1\<close> before and one with a sink that has received \<open>w2\<close>, both call
  their sink with the same further words \<open>encode T S\<close>, in the same order.
\<close>

theorem encode_deterministic:
  "writeFn_calls (foldl (call_step T) (sink_holding w1 Simple8bBuilder_new) (calls_of S))
     = w1 @ encode T S
   \<and> writeFn_calls (foldl (call_step T) (sink_holding w2 Simple8bBuilder_new) (calls_of S))
     = w2 @ encode T S"
  by (simp add: sink_foldl_call_step encode_def run_calls_def)

end
